theory Spec2Isabelle
  imports Main "HOL-Library.Sublist" "HOL-Library.Multiset" "HOL-Library.Char_ord"
    "HOL-Library.List_Lexorder"
begin

section \<open>JavaScript strings\<close>

text \<open>
  A JavaScript string is modelled as a list of code units below 256 (HOL's \<open>char\<close>).
  In that range the code points that \<open>String.prototype.trim\<close> strips and that the
  regular-expression class \<open>\s\<close> matches are 9 to 13, 32 and 160. The line terminators,
  which the regular-expression dot does not match, are U+000A, U+000D, U+2028 and U+2029;
  only the first two are below 256 and can occur in a string of the model.
\<close>

definition isLineTerminator :: "char \<Rightarrow> bool" where
  "isLineTerminator c \<longleftrightarrow> c = CHR 0x0A \<or> c = CHR 0x0D"

definition isWhiteSpace :: "char \<Rightarrow> bool" where
  "isWhiteSpace c \<longleftrightarrow>
     c = CHR 0x09 \<or> c = CHR 0x0A \<or> c = CHR 0x0B \<or> c = CHR 0x0C \<or> c = CHR 0x0D \<or>
     c = CHR 0x20 \<or> c = CHR 0xA0"

text \<open>A character range \<open>[lo-hi]\<close>, by code unit.\<close>

definition inRange :: "char \<Rightarrow> char \<Rightarrow> char \<Rightarrow> bool" where
  "inRange lo hi c \<longleftrightarrow> (of_char lo :: nat) \<le> of_char c \<and> (of_char c :: nat) \<le> of_char hi"

definition isDigit :: "char \<Rightarrow> bool" where
  "isDigit c \<longleftrightarrow> inRange CHR ''0'' CHR ''9'' c"

definition isHexDigit :: "char \<Rightarrow> bool" where
  "isHexDigit c \<longleftrightarrow>
     inRange CHR ''0'' CHR ''9'' c \<or> inRange CHR ''a'' CHR ''f'' c \<or> inRange CHR ''A'' CHR ''F'' c"

text \<open>\<open>s.trim()\<close>\<close>

definition trim :: "string \<Rightarrow> string" where
  "trim s = rev (dropWhile isWhiteSpace (rev (dropWhile isWhiteSpace s)))"

text \<open>\<open>s.startsWith(p)\<close>\<close>

definition startsWith :: "string \<Rightarrow> string \<Rightarrow> bool" where
  "startsWith s p \<longleftrightarrow> prefix p s"

text \<open>\<open>s.substring(n)\<close>\<close>

definition substring :: "string \<Rightarrow> nat \<Rightarrow> string" where
  "substring s n = drop n s"

text \<open>\<open>s.includes(t)\<close>\<close>

fun str_includes :: "string \<Rightarrow> string \<Rightarrow> bool" where
  "str_includes [] t \<longleftrightarrow> t = []"
| "str_includes (c # cs) t \<longleftrightarrow> prefix t (c # cs) \<or> str_includes cs t"

text \<open>\<open>s.split(d)\<close> for a one-character separator \<open>d\<close>: never empty, \<open>''''\<close> gives \<open>['''']\<close>.\<close>

fun split_char :: "char \<Rightarrow> string \<Rightarrow> string list" where
  "split_char d [] = [[]]"
| "split_char d (c # cs) =
     (if c = d then [] # split_char d cs
      else (case split_char d cs of [] \<Rightarrow> [[c]] | p # ps \<Rightarrow> (c # p) # ps))"

text \<open>\<open>s.split("::")\<close>: the separator is found from the left, occurrences do not overlap.\<close>

fun split_dcolon :: "string \<Rightarrow> string list" where
  "split_dcolon (a # b # cs) =
     (if a = CHR '':'' \<and> b = CHR '':'' then [] # split_dcolon cs
      else (case split_dcolon (b # cs) of [] \<Rightarrow> [[a]] | p # ps \<Rightarrow> (a # p) # ps))"
| "split_dcolon cs = [cs]"

text \<open>\<open>xs.join(sep)\<close>\<close>

fun join :: "string \<Rightarrow> string list \<Rightarrow> string" where
  "join sep [] = []"
| "join sep [x] = x"
| "join sep (x # y # ys) = x @ sep @ join sep (y # ys)"

text \<open>
  \<open>s.split(/\s+/)\<close>: the text before the first run of white space, then the split of what
  follows the run; a leading or trailing run leaves an empty first or last token.
\<close>

function split_ws :: "string \<Rightarrow> string list" where
  "split_ws s =
     (let tok = takeWhile (\<lambda>c. \<not> isWhiteSpace c) s;
          rest = dropWhile (\<lambda>c. \<not> isWhiteSpace c) s
      in if rest = [] then [tok] else tok # split_ws (dropWhile isWhiteSpace rest))"
  by pat_completeness auto
termination
proof (relation "measure length")
  show "wf (measure length)" by simp
next
  fix s tok rest :: string
  assume r: "rest = dropWhile (\<lambda>c. \<not> isWhiteSpace c) s" and ne: "rest \<noteq> []"
  from ne obtain c cs where rc: "rest = c # cs" by (cases rest) auto
  have "length (dropWhile isWhiteSpace rest) \<le> length rest"
    by (rule length_dropWhile_le)
  moreover have "isWhiteSpace c"
    using r rc by (metis (mono_tags, lifting) dropWhile_eq_Cons_conv)
  ultimately have "length (dropWhile isWhiteSpace rest) < length rest"
    using rc by (simp add: le_imp_less_Suc length_dropWhile_le)
  moreover have "length rest \<le> length s"
    unfolding r by (rule length_dropWhile_le)
  ultimately show "(dropWhile isWhiteSpace rest, s) \<in> measure length" by simp
qed

declare split_ws.simps [simp del]

text \<open>
  \<open>Number(s)\<close> on the strings the validator passes to it, which are runs of decimal
  digits: the decimal value. Any other argument gives \<open>None\<close>, standing for a value that
  fails every comparison.
\<close>

definition digit_val :: "char \<Rightarrow> nat" where
  "digit_val c = of_char c - of_char CHR ''0''"

definition decimal_value :: "string \<Rightarrow> nat" where
  "decimal_value s = foldl (\<lambda>n c. 10 * n + digit_val c) 0 s"

definition Number :: "string \<Rightarrow> nat option" where
  "Number s = (if list_all isDigit s then Some (decimal_value s) else None)"

section \<open>Regular expressions\<close>

text \<open>
  A pattern is run as a backtracking matcher: applied to the input that is left, it
  returns the inputs left after each way of matching, in the order in which the engine
  tries them (greedy quantifiers try the longest repetition first).
\<close>

type_synonym matcher = "string \<Rightarrow> string list"

text \<open>One character of a class.\<close>

definition rx_class :: "(char \<Rightarrow> bool) \<Rightarrow> matcher" where
  "rx_class P s = (case s of [] \<Rightarrow> [] | c # cs \<Rightarrow> if P c then [cs] else [])"

text \<open>Concatenation.\<close>

definition rx_seq :: "matcher \<Rightarrow> matcher \<Rightarrow> matcher" where
  "rx_seq a b s = concat (map b (a s))"

text \<open>The greedy bounded quantifier \<open>{lo,hi}\<close>.\<close>

fun rx_rep :: "nat \<Rightarrow> nat \<Rightarrow> matcher \<Rightarrow> matcher" where
  "rx_rep 0 0 m s = [s]"
| "rx_rep 0 (Suc hi) m s = concat (map (rx_rep 0 hi m) (m s)) @ [s]"
| "rx_rep (Suc lo) 0 m s = []"
| "rx_rep (Suc lo) (Suc hi) m s = concat (map (rx_rep lo hi m) (m s))"

text \<open>The greedy star of one character class.\<close>

fun rx_star_class :: "(char \<Rightarrow> bool) \<Rightarrow> matcher" where
  "rx_star_class P [] = [[]]"
| "rx_star_class P (c # cs) = (if P c then rx_star_class P cs @ [c # cs] else [c # cs])"

text \<open>
  The greedy star of a group. An iteration that matches the empty string is not
  repeated, so the input gets shorter with every iteration and its length bounds the
  number of iterations.
\<close>

fun rx_star_n :: "nat \<Rightarrow> matcher \<Rightarrow> matcher" where
  "rx_star_n 0 m s = [s]"
| "rx_star_n (Suc n) m s =
     concat (map (rx_star_n n m) (filter (\<lambda>r. length r < length s) (m s))) @ [s]"

definition rx_star :: "matcher \<Rightarrow> matcher" where
  "rx_star m s = rx_star_n (length s) m s"

text \<open>\<open>/^...$/.test(s)\<close>: some way of matching leaves no input.\<close>

definition rx_test :: "matcher \<Rightarrow> string \<Rightarrow> bool" where
  "rx_test m s \<longleftrightarrow> [] \<in> set (m s)"

section \<open>The IP validator\<close>

text \<open>\<open>/^(\d{1,3}\.){3}\d{1,3}$/\<close>\<close>

definition ipv4Regex :: matcher where
  "ipv4Regex =
     rx_seq (rx_rep 3 3 (rx_seq (rx_rep 1 3 (rx_class isDigit)) (rx_class (\<lambda>c. c = CHR ''.''))))
            (rx_rep 1 3 (rx_class isDigit))"

text \<open>The first alternative of the IPv6 pattern, \<open>^([0-9a-fA-F]{1,4}:){7}[0-9a-fA-F]{1,4}$\<close>.\<close>

definition ipv6FullRegex :: matcher where
  "ipv6FullRegex =
     rx_seq (rx_rep 7 7 (rx_seq (rx_rep 1 4 (rx_class isHexDigit)) (rx_class (\<lambda>c. c = CHR '':''))))
            (rx_rep 1 4 (rx_class isHexDigit))"

text \<open>\<open>/^([0-9a-fA-F]{1,4}:){7}[0-9a-fA-F]{1,4}$|^::1$|^::$/.test(ip)\<close>\<close>

definition ipv6Regex_test :: "string \<Rightarrow> bool" where
  "ipv6Regex_test ip \<longleftrightarrow> rx_test ipv6FullRegex ip \<or> ip = ''::1'' \<or> ip = ''::''"

text \<open>\<open>x.split(":").filter(Boolean)\<close>\<close>

definition colon_segments :: "string \<Rightarrow> string list" where
  "colon_segments x = filter (\<lambda>g. g \<noteq> []) (split_char CHR '':'' x)"

definition isValidIP :: "string \<Rightarrow> bool" where
  "isValidIP ip =
     (if rx_test ipv4Regex ip then
        list_all (\<lambda>part. case part of None \<Rightarrow> False | Some n \<Rightarrow> 0 \<le> n \<and> n \<le> 255)
                 (map Number (split_char CHR ''.'' ip))
      else if ipv6Regex_test ip then True
      else if str_includes ip ''::'' then
        (let parts = split_dcolon ip in
         if length parts = 2
         then length (colon_segments (parts ! 0)) + length (colon_segments (parts ! 1)) \<le> 8
         else False)
      else False)"

text \<open>
  \<open>/^[a-z0-9]([a-z0-9-]{0,61}[a-z0-9])?(\.[a-z0-9]([a-z0-9-]{0,61}[a-z0-9])?)*$/i\<close>;
  the flag \<open>i\<close> lets the letter ranges match both cases.
\<close>

definition isAlnum :: "char \<Rightarrow> bool" where
  "isAlnum c \<longleftrightarrow>
     inRange CHR ''a'' CHR ''z'' c \<or> inRange CHR ''A'' CHR ''Z'' c \<or> inRange CHR ''0'' CHR ''9'' c"

definition hostnameLabel :: matcher where
  "hostnameLabel =
     rx_seq (rx_class isAlnum)
       (rx_rep 0 1 (rx_seq (rx_rep 0 61 (rx_class (\<lambda>c. isAlnum c \<or> c = CHR ''-'')))
                          (rx_class isAlnum)))"

definition hostnameRegex :: matcher where
  "hostnameRegex =
     rx_seq hostnameLabel (rx_star (rx_seq (rx_class (\<lambda>c. c = CHR ''.'')) hostnameLabel))"

definition isValidHostname :: "string \<Rightarrow> bool" where
  "isValidHostname hostname =
     (if length hostname > 253 then False else rx_test hostnameRegex hostname)"

section \<open>Entries\<close>

text \<open>
  \<open>HostEntry\<close>; the optional fields \<open>comment\<close> and \<open>group\<close> are \<open>None\<close> when
  undefined. The field \<open>id\<close> is named \<open>id_str\<close> here.
\<close>

record HostEntry =
  id_str :: string
  ip :: string
  hostnames :: "string list"
  enabled :: bool
  comment :: "string option"
  group :: "string option"

text \<open>The decimal numeral that a template literal writes for a non-negative integer.\<close>

definition digit_char :: "nat \<Rightarrow> char" where
  "digit_char d = char_of (of_char CHR ''0'' + d)"

function show_nat :: "nat \<Rightarrow> string" where
  "show_nat n = (if n < 10 then [digit_char n] else show_nat (n div 10) @ [digit_char (n mod 10)])"
  by pat_completeness auto
termination
  by (relation "measure (\<lambda>n. n)") auto

declare show_nat.simps [simp del]

section \<open>The entry codec and the document parser\<close>

text \<open>
  \<open>/#\s*(.+)$/\<close> matched at the head of the input: the texts captured by group 1, one
  for each way of matching, in backtracking order. The group is followed by \<open>$\<close>, so
  it captures all that \<open>\s*\<close> has left, when that is a non-empty run without a line
  terminator.
\<close>

definition commentRegex_at :: "string \<Rightarrow> string list" where
  "commentRegex_at s =
     concat (map (\<lambda>r1. filter (rx_test (rx_seq (rx_class (\<lambda>c. \<not> isLineTerminator c))
                                              (rx_star_class (\<lambda>c. \<not> isLineTerminator c))))
                              (rx_star_class isWhiteSpace r1))
                 (rx_class (\<lambda>c. c = CHR ''#'') s))"

text \<open>\<open>commentRegex.exec(line)\<close>: the first match from the leftmost position that has one.\<close>

fun commentRegex_exec :: "string \<Rightarrow> string option" where
  "commentRegex_exec [] = None"
| "commentRegex_exec (c # cs) =
     (case commentRegex_at (c # cs) of g # _ \<Rightarrow> Some g | [] \<Rightarrow> commentRegex_exec cs)"

definition parseEntryLine :: "string \<Rightarrow> nat \<Rightarrow> HostEntry option" where
  "parseEntryLine line entryId =
     (let parts = split_ws line in
      if length parts < 2 then None
      else
        let ip = parts ! 0;
            hostnames = filter (\<lambda>h. h \<noteq> [] \<and> \<not> startsWith h ''#'') (drop 1 parts)
        in if \<not> isValidIP ip then None
           else Some \<lparr> id_str = ''entry-'' @ show_nat entryId, ip = ip, hostnames = hostnames,
                       enabled = True,
                       comment = map_option trim (commentRegex_exec line),
                       group = None \<rparr>)"

text \<open>
  \<open>handleCommentLine\<close> changes the comment of the last entry in place; the model returns
  the list of entries. \<open>allLines[lineIndex - 1]?.trim()\<close> is undefined, hence falsy,
  outside the array.
\<close>

definition handleCommentLine ::
  "string \<Rightarrow> HostEntry list \<Rightarrow> nat \<Rightarrow> string list \<Rightarrow> HostEntry list" where
  "handleCommentLine line entries lineIndex allLines =
     (if entries = [] \<or> lineIndex = 0 then entries
      else
        let prevLine = (if lineIndex - 1 < length allLines
                        then trim (allLines ! (lineIndex - 1)) else [])
        in if prevLine \<noteq> [] \<and> \<not> startsWith prevLine ''#'' then
             (let comment = trim (substring line 1) in
              if comment \<noteq> []
              then butlast entries @ [(last entries)\<lparr> comment := Some comment \<rparr>]
              else entries)
           else entries)"

text \<open>
  The loop of \<open>parse\<close> over the lines that are left, with the index \<open>i\<close> of the next
  line, the counter \<open>entryId\<close> and the entries produced so far.
\<close>

fun parse_loop ::
  "string list \<Rightarrow> string list \<Rightarrow> nat \<Rightarrow> nat \<Rightarrow> HostEntry list \<Rightarrow> HostEntry list" where
  "parse_loop allLines [] i entryId entries = entries"
| "parse_loop allLines (raw # rest) i entryId entries =
     (let line = trim raw in
      if line = [] then parse_loop allLines rest (Suc i) entryId entries
      else if startsWith line ''#'' then
        (let commentContent = trim (substring line 1) in
         case parseEntryLine commentContent entryId of
           Some disabledEntry \<Rightarrow>
             parse_loop allLines rest (Suc i) (Suc entryId)
               (entries @ [disabledEntry\<lparr> enabled := False \<rparr>])
         | None \<Rightarrow>
             parse_loop allLines rest (Suc i) (Suc entryId)
               (handleCommentLine line entries i allLines))
      else
        (case parseEntryLine line entryId of
           Some entry \<Rightarrow> parse_loop allLines rest (Suc i) (Suc entryId) (entries @ [entry])
         | None \<Rightarrow> parse_loop allLines rest (Suc i) (Suc entryId) entries))"

definition parse :: "string \<Rightarrow> HostEntry list" where
  "parse content = (let lines = split_char CHR 0x0A content in parse_loop lines lines 0 0 [])"

text \<open>\<open>if (entry.comment)\<close>: the comment is defined and not the empty string.\<close>

definition formatEntry :: "HostEntry \<Rightarrow> string list" where
  "formatEntry entry =
     (let hostnameLine = ip entry @ '' '' @ join '' '' (hostnames entry) in
      if enabled entry then
        (case comment entry of
           Some c \<Rightarrow> if c \<noteq> [] then [hostnameLine @ '' # '' @ c] else [hostnameLine]
         | None \<Rightarrow> [hostnameLine])
      else
        [''# '' @ hostnameLine] @
        (case comment entry of
           Some c \<Rightarrow> if c \<noteq> [] then [''# '' @ c] else []
         | None \<Rightarrow> []))"

text \<open>
  \<open>stringify\<close>; \<open>now\<close> is what \<open>new Date().toISOString()\<close> returns. The two guards
  that throw, and the one that skips an element, test for values that are not arrays or
  not objects, which the argument type \<open>HostEntry[]\<close> excludes.
\<close>

definition stringify :: "string \<Rightarrow> HostEntry list \<Rightarrow> string" where
  "stringify now entries =
     join [CHR 0x0A]
       ([''# Hosts file managed by iHosts'', ''# Generated at '' @ now, []] @
        concat (map formatEntry entries)) @ [CHR 0x0A]"

section \<open>Validation and writing\<close>

record ValidationResult =
  valid :: bool
  errors :: "string list"

definition validateEntry :: "HostEntry \<Rightarrow> ValidationResult" where
  "validateEntry entry =
     (let errors1 = (if \<not> isValidIP (ip entry) then [''Invalid IP address: '' @ ip entry] else []);
          errors2 = (if length (hostnames entry) = 0
                     then errors1 @ [''At least one hostname is required''] else errors1);
          errors3 = foldl (\<lambda>errs hostname.
                             if \<not> isValidHostname hostname
                             then errs @ [''Invalid hostname: '' @ hostname] else errs)
                          errors2 (hostnames entry)
      in \<lparr> valid = (length errors3 = 0), errors = errors3 \<rparr>)"

datatype error = TypeError string | Error string

text \<open>
  The loop of \<open>validateEntriesForWrite\<close>, with the index \<open>i\<close> of the next entry and the
  messages collected so far. Its guard for an element that is not an object cannot
  fire on a \<open>HostEntry\<close>.
\<close>

fun validate_loop :: "HostEntry list \<Rightarrow> nat \<Rightarrow> string list \<Rightarrow> string list" where
  "validate_loop [] i validationErrors = validationErrors"
| "validate_loop (entry # rest) i validationErrors =
     (let validation = validateEntry entry in
      if \<not> valid validation
      then validate_loop rest (Suc i)
             (validationErrors @
              [''Entry '' @ show_nat (i + 1) @ '': '' @ join '', '' (errors validation)])
      else validate_loop rest (Suc i) validationErrors)"

definition validateEntriesForWrite :: "HostEntry list \<Rightarrow> error + unit" where
  "validateEntriesForWrite entries =
     (if length entries = 0 then Inl (Error ''Cannot save empty hosts file'')
      else
        let validationErrors = validate_loop entries 0 [] in
        if length validationErrors > 0
        then Inl (Error (''Validation failed:'' @ [CHR 0x0A] @ join [CHR 0x0A] validationErrors))
        else Inr ())"

text \<open>
  What \<open>writeHosts\<close> can change: the text of the hosts file, the backups stored, and the
  dialogs shown to the user.
\<close>

record world =
  hostsFile :: string
  backupStore :: "HostEntry list list"
  dialogsShown :: nat

text \<open>
  What the collaborators answer during one call: whether a window was passed, the button
  chosen in the dialog, whether the hosts file can be read and the backup written, the
  failure of the privileged copy if it fails, and the time stamp.
\<close>

record environment =
  window :: bool
  dialogResponse :: nat
  hostsReadable :: bool
  backupWritable :: bool
  writeFailure :: "error option"
  now :: string

definition requestPermission :: "environment \<Rightarrow> world \<Rightarrow> (error + unit) \<times> world" where
  "requestPermission env w =
     (if \<not> window env then (Inr (), w)
      else
        let w' = w\<lparr> dialogsShown := dialogsShown w + 1 \<rparr> in
        if dialogResponse env = 0 then (Inl (Error ''Permission denied: User canceled''), w')
        else (Inr (), w'))"

text \<open>A failure while reading or backing up is logged and swallowed.\<close>

definition createBackupIfNeeded :: "environment \<Rightarrow> world \<Rightarrow> world" where
  "createBackupIfNeeded env w =
     (if hostsReadable env then
        (let currentEntries = parse (hostsFile w) in
         if length currentEntries > 0 \<and> backupWritable env
         then w\<lparr> backupStore := backupStore w @ [currentEntries] \<rparr> else w)
      else w)"

definition writeContentToHostsFile ::
  "environment \<Rightarrow> string \<Rightarrow> world \<Rightarrow> (error + unit) \<times> world" where
  "writeContentToHostsFile env content w =
     (case writeFailure env of
        Some e \<Rightarrow> (Inl e, w)
      | None \<Rightarrow> (Inr (), w\<lparr> hostsFile := content \<rparr>))"

definition writeHosts :: "HostEntry list \<Rightarrow> environment \<Rightarrow> world \<Rightarrow> (error + unit) \<times> world" where
  "writeHosts entries env w =
     (case validateEntriesForWrite entries of
        Inl e \<Rightarrow> (Inl e, w)
      | Inr _ \<Rightarrow>
          (case requestPermission env w of
             (Inl e, w1) \<Rightarrow> (Inl e, w1)
           | (Inr _, w1) \<Rightarrow>
               let w2 = createBackupIfNeeded env w1;
                   content = stringify (now env) entries
               in writeContentToHostsFile env content w2))"

section \<open>The store\<close>

datatype filterStatus = All | Enabled | Disabled | Unsaved
datatype sortBy = SortIp | SortHostname | SortGroup | SortNone
datatype sortOrder = Asc | Desc
datatype viewMode = EntriesView | PlainTextView | BackupsView

record BackupInfo =
  backup_id :: string
  timestamp :: nat
  path :: string
  entryCount :: nat

record HostsStore =
  entries :: "HostEntry list"
  originalEntries :: "HostEntry list"
  filteredEntries :: "HostEntry list"
  backups :: "BackupInfo list"
  searchQuery :: string
  filterStatus :: filterStatus
  sortBy :: sortBy
  sortOrder :: sortOrder
  isLoading :: bool
  error :: "string option"
  darkMode :: bool
  viewMode :: viewMode

text \<open>
  \<open>Partial<HostEntry>\<close>: a field is \<open>None\<close> when the key is absent. For the optional
  fields \<open>comment\<close> and \<open>group\<close> a present key may carry undefined (\<open>Some None\<close>).
\<close>

record HostEntryUpdates =
  upd_id :: "string option"
  upd_ip :: "string option"
  upd_hostnames :: "string list option"
  upd_enabled :: "bool option"
  upd_comment :: "string option option"
  upd_group :: "string option option"

text \<open>\<open>{ ...entry, ...updates }\<close>\<close>

definition spread :: "HostEntry \<Rightarrow> HostEntryUpdates \<Rightarrow> HostEntry" where
  "spread entry updates =
     \<lparr> id_str = (case upd_id updates of None \<Rightarrow> id_str entry | Some v \<Rightarrow> v),
       ip = (case upd_ip updates of None \<Rightarrow> ip entry | Some v \<Rightarrow> v),
       hostnames = (case upd_hostnames updates of None \<Rightarrow> hostnames entry | Some v \<Rightarrow> v),
       enabled = (case upd_enabled updates of None \<Rightarrow> enabled entry | Some v \<Rightarrow> v),
       comment = (case upd_comment updates of None \<Rightarrow> comment entry | Some v \<Rightarrow> v),
       group = (case upd_group updates of None \<Rightarrow> group entry | Some v \<Rightarrow> v) \<rparr>"

text \<open>
  \<open>Array.prototype.sort\<close> with a comparison function: a stable sort, here by insertion.
  The comparison returns a negative number, zero or a positive number.
\<close>

fun js_insert :: "('a \<Rightarrow> 'a \<Rightarrow> int) \<Rightarrow> 'a \<Rightarrow> 'a list \<Rightarrow> 'a list" where
  "js_insert cmp x [] = [x]"
| "js_insert cmp x (y # ys) = (if cmp x y \<le> 0 then x # y # ys else y # js_insert cmp x ys)"

definition js_sort :: "('a \<Rightarrow> 'a \<Rightarrow> int) \<Rightarrow> 'a list \<Rightarrow> 'a list" where
  "js_sort cmp xs = foldr (js_insert cmp) xs []"

text \<open>\<open>toLowerCase\<close> on code units below 256.\<close>

definition toLowerChar :: "char \<Rightarrow> char" where
  "toLowerChar c =
     (if inRange CHR ''A'' CHR ''Z'' c \<or> (inRange CHR 0xC0 CHR 0xDE c \<and> c \<noteq> CHR 0xD7)
      then char_of (of_char c + (32 :: nat)) else c)"

definition toLowerCase :: "string \<Rightarrow> string" where
  "toLowerCase s = map toLowerChar s"

text \<open>
  \<open>isEntryUnsaved\<close>. \<open>localeCompare\<close> is the collation of the host and is a parameter,
  \<open>lc\<close>; it can return 0 for two different texts. The two \<open>JSON.stringify\<close> texts of
  arrays of strings differ exactly when the arrays differ.
\<close>

definition isEntryUnsaved :: "(string \<Rightarrow> string \<Rightarrow> int) \<Rightarrow> HostsStore \<Rightarrow> HostEntry \<Rightarrow> bool" where
  "isEntryUnsaved lc s entry =
     (case find (\<lambda>e. id_str e = id_str entry) (originalEntries s) of
        None \<Rightarrow> True
      | Some originalEntry \<Rightarrow>
          let sortedHostnames = js_sort lc (hostnames entry);
              sortedOriginalHostnames = js_sort lc (hostnames originalEntry)
          in ip entry \<noteq> ip originalEntry \<or>
             sortedHostnames \<noteq> sortedOriginalHostnames \<or>
             enabled entry \<noteq> enabled originalEntry \<or>
             comment entry \<noteq> comment originalEntry \<or>
             group entry \<noteq> group originalEntry)"

definition applyFilters :: "(string \<Rightarrow> string \<Rightarrow> int) \<Rightarrow> HostsStore \<Rightarrow> HostsStore" where
  "applyFilters lc s =
     (let filtered0 = entries s;
          filtered1 =
            (if searchQuery s \<noteq> [] then
               (let query = toLowerCase (searchQuery s) in
                filter (\<lambda>entry.
                    str_includes (toLowerCase (ip entry)) query \<or>
                    list_ex (\<lambda>h. str_includes (toLowerCase h) query) (hostnames entry) \<or>
                    (case comment entry of None \<Rightarrow> False
                     | Some c \<Rightarrow> str_includes (toLowerCase c) query) \<or>
                    (case group entry of None \<Rightarrow> False
                     | Some g \<Rightarrow> str_includes (toLowerCase g) query))
                  filtered0)
             else filtered0);
          filtered2 =
            (case filterStatus s of
               Enabled \<Rightarrow> filter (\<lambda>entry. enabled entry) filtered1
             | Disabled \<Rightarrow> filter (\<lambda>entry. \<not> enabled entry) filtered1
             | Unsaved \<Rightarrow> filter (\<lambda>entry. isEntryUnsaved lc s entry) filtered1
             | All \<Rightarrow> filtered1);
          filtered3 =
            (if sortBy s \<noteq> SortNone then
               js_sort (\<lambda>a b.
                   let comparison =
                     (case sortBy s of
                        SortIp \<Rightarrow> lc (ip a) (ip b)
                      | SortHostname \<Rightarrow>
                          lc (case hostnames a of [] \<Rightarrow> [] | h # _ \<Rightarrow> h)
                             (case hostnames b of [] \<Rightarrow> [] | h # _ \<Rightarrow> h)
                      | SortGroup \<Rightarrow>
                          lc (case group a of None \<Rightarrow> [] | Some g \<Rightarrow> g)
                             (case group b of None \<Rightarrow> [] | Some g \<Rightarrow> g)
                      | SortNone \<Rightarrow> 0)
                   in if sortOrder s = Asc then comparison else - comparison)
                 filtered2
             else filtered2)
      in s\<lparr> filteredEntries := filtered3 \<rparr>)"

definition updateEntry ::
  "(string \<Rightarrow> string \<Rightarrow> int) \<Rightarrow> string \<Rightarrow> HostEntryUpdates \<Rightarrow> HostsStore \<Rightarrow> HostsStore" where
  "updateEntry lc i updates s =
     applyFilters lc
       (s\<lparr> entries := map (\<lambda>entry. if id_str entry = i then spread entry updates else entry)
                          (entries s) \<rparr>)"

definition toggleEntry :: "(string \<Rightarrow> string \<Rightarrow> int) \<Rightarrow> string \<Rightarrow> HostsStore \<Rightarrow> HostsStore" where
  "toggleEntry lc i s =
     applyFilters lc
       (s\<lparr> entries := map (\<lambda>entry. if id_str entry = i
                                    then entry\<lparr> enabled := \<not> enabled entry \<rparr> else entry)
                          (entries s) \<rparr>)"

text \<open>
  The comparison that \<open>Array.prototype.sort\<close> uses when it is given none: strings are
  ordered by their code units.
\<close>

definition sortCompare :: "string \<Rightarrow> string \<Rightarrow> int" where
  "sortCompare x y = (if x < y then - 1 else if y < x then 1 else 0)"

text \<open>
  The copy of \<open>isEntryUnsaved\<close> that \<open>checkUnsavedChanges\<close> of the main process runs on
  the state of the store (\<open>originals\<close> is its \<open>originalEntries\<close>); it sorts the hostnames
  with \<open>sort()\<close>, without a comparison function.
\<close>

definition checkUnsavedChanges_isEntryUnsaved :: "HostEntry list \<Rightarrow> HostEntry \<Rightarrow> bool" where
  "checkUnsavedChanges_isEntryUnsaved originals entry =
     (case find (\<lambda>e. id_str e = id_str entry) originals of
        None \<Rightarrow> True
      | Some original \<Rightarrow>
          ip entry \<noteq> ip original \<or>
          js_sort sortCompare (hostnames entry) \<noteq> js_sort sortCompare (hostnames original) \<or>
          enabled entry \<noteq> enabled original \<or>
          comment entry \<noteq> comment original \<or>
          group entry \<noteq> group original)"

section \<open>Sample values\<close>

text \<open>The entry of the round-trip properties P2 and P3, enabled and disabled.\<close>

definition sample_entry :: HostEntry where
  "sample_entry =
     \<lparr> id_str = ''entry-0'', ip = ''10.0.0.5'', hostnames = [''a.test'', ''b.test''],
       enabled = True, comment = Some ''dev'', group = None \<rparr>"

definition sample_disabled_entry :: HostEntry where
  "sample_disabled_entry = sample_entry\<lparr> enabled := False \<rparr>"

definition sample_now :: string where
  "sample_now = ''2026-01-01T00:00:00.000Z''"

text \<open>A store whose working list and saved list hold one entry, with id \<open>1\<close>.\<close>

definition sample_store :: HostsStore where
  "sample_store =
     \<lparr> entries = [\<lparr> id_str = ''1'', ip = ''1.1.1.1'', hostnames = [''x'', ''y''],
                     enabled = True, comment = None, group = None \<rparr>],
       originalEntries = [\<lparr> id_str = ''1'', ip = ''1.1.1.1'', hostnames = [''x'', ''y''],
                             enabled = True, comment = None, group = None \<rparr>],
       filteredEntries = [],
       backups = [],
       searchQuery = [],
       filterStatus = All,
       sortBy = SortNone,
       sortOrder = Asc,
       isLoading = False,
       error = None,
       darkMode = False,
       viewMode = EntriesView \<rparr>"

definition sample_updates :: HostEntryUpdates where
  "sample_updates =
     \<lparr> upd_id = None, upd_ip = Some ''2.2.2.2'', upd_hostnames = None, upd_enabled = None,
       upd_comment = None, upd_group = None \<rparr>"

text \<open>A world and the answers of the collaborators for one call of \<open>writeHosts\<close>.\<close>

definition sample_world :: world where
  "sample_world = \<lparr> hostsFile = ''127.0.0.1 localhost'', backupStore = [], dialogsShown = 0 \<rparr>"

definition sample_environment :: environment where
  "sample_environment =
     \<lparr> window = True, dialogResponse = 1, hostsReadable = True, backupWritable = True,
       writeFailure = None, now = sample_now \<rparr>"

text \<open>An entry with an address that is not valid and with no hostname.\<close>

definition sample_invalid_entry :: HostEntry where
  "sample_invalid_entry =
     \<lparr> id_str = ''entry-1'', ip = ''bad'', hostnames = [],
       enabled = True, comment = None, group = None \<rparr>"

section \<open>The words of the specification\<close>

text \<open>
  What makes an entry invalid for writing, and the reasons listed for it: the address
  fails the validator, there is no hostname, or a hostname fails the hostname syntax.
\<close>

definition entry_invalid :: "HostEntry \<Rightarrow> bool" where
  "entry_invalid e \<longleftrightarrow>
     \<not> isValidIP (ip e) \<or> hostnames e = [] \<or> list_ex (\<lambda>h. \<not> isValidHostname h) (hostnames e)"

definition entry_reasons :: "HostEntry \<Rightarrow> string list" where
  "entry_reasons e =
     (if isValidIP (ip e) then [] else [''Invalid IP address: '' @ ip e]) @
     (if hostnames e = [] then [''At least one hostname is required''] else []) @
     map (\<lambda>h. ''Invalid hostname: '' @ h) (filter (\<lambda>h. \<not> isValidHostname h) (hostnames e))"

text \<open>
  The aggregated message: one line for each offending entry, in the order of the list,
  with the position of the entry counted from 1 and its reasons.
\<close>

definition offending_lines :: "nat \<Rightarrow> HostEntry list \<Rightarrow> string list" where
  "offending_lines i es =
     map (\<lambda>(k, e). ''Entry '' @ show_nat (k + 1) @ '': '' @ join '', '' (entry_reasons e))
         (filter (\<lambda>(k, e). entry_invalid e) (enumerate i es))"

definition validation_failure :: "HostEntry list \<Rightarrow> error" where
  "validation_failure es =
     Error (''Validation failed:'' @ [CHR 0x0A] @ join [CHR 0x0A] (offending_lines 0 es))"

text \<open>A collation that is a total order: text compared code unit by code unit.\<close>

definition codeunit_compare :: "string \<Rightarrow> string \<Rightarrow> int" where
  "codeunit_compare a b = (if a < b then - 1 else if a = b then 0 else 1)"

text \<open>The entries of P5, judged against \<open>sample_store\<close>.\<close>

definition sample_reordered :: HostEntry where
  "sample_reordered =
     \<lparr> id_str = ''1'', ip = ''1.1.1.1'', hostnames = [''y'', ''x''],
       enabled = True, comment = None, group = None \<rparr>"

definition sample_extended :: HostEntry where
  "sample_extended =
     \<lparr> id_str = ''1'', ip = ''1.1.1.1'', hostnames = [''x'', ''y'', ''z''],
       enabled = True, comment = None, group = None \<rparr>"

text \<open>
  Two hostnames that differ by a soft hyphen (U+00AD), which the collation of the host
  ignores; a saved entry with both, the same entry with the two hostnames exchanged, and
  a store that holds them.
\<close>

definition soft_hyphen_a :: string where
  "soft_hyphen_a = ''a'' @ [CHR 0xAD]"

definition tied_saved :: HostEntry where
  "tied_saved =
     \<lparr> id_str = ''1'', ip = ''1.1.1.1'', hostnames = [''a'', soft_hyphen_a],
       enabled = True, comment = None, group = None \<rparr>"

definition tied_reordered :: HostEntry where
  "tied_reordered = tied_saved\<lparr> hostnames := [soft_hyphen_a, ''a''] \<rparr>"

definition tied_store :: HostsStore where
  "tied_store = sample_store\<lparr> entries := [tied_reordered], originalEntries := [tied_saved] \<rparr>"

text \<open>A collation that ignores the soft hyphen and otherwise compares code units.\<close>

definition soft_hyphen_blind_compare :: "string \<Rightarrow> string \<Rightarrow> int" where
  "soft_hyphen_blind_compare a b =
     codeunit_compare (filter (\<lambda>c. c \<noteq> CHR 0xAD) a) (filter (\<lambda>c. c \<noteq> CHR 0xAD) b)"

text \<open>
  The lines of a text that are not blank, trimmed; whether such a line yields an entry
  (as a disabled entry when it starts with \<open>#\<close>); and the positions, counted from 0 among
  the non-blank lines, of the lines that yield one.
\<close>

definition nonblank_lines :: "string \<Rightarrow> string list" where
  "nonblank_lines text = filter (\<lambda>l. l \<noteq> []) (map trim (split_char CHR 0x0A text))"

definition produces_entry :: "string \<Rightarrow> bool" where
  "produces_entry l \<longleftrightarrow>
     parseEntryLine (if startsWith l ''#'' then trim (substring l 1) else l) 0 \<noteq> None"

definition producing_positions :: "nat \<Rightarrow> string list \<Rightarrow> nat list" where
  "producing_positions n ls = map fst (filter (\<lambda>(k, l). produces_entry l) (enumerate n ls))"

text \<open>A comment line followed by an entry line.\<close>

definition sample_text :: string where
  "sample_text = ''# my hosts'' @ [CHR 0x0A] @ ''127.0.0.1 localhost''"

text \<open>
  A group of the address syntax: between \<open>lo\<close> and \<open>hi\<close> characters of one class.
\<close>

definition in_group :: "(char \<Rightarrow> bool) \<Rightarrow> nat \<Rightarrow> nat \<Rightarrow> string \<Rightarrow> bool" where
  "in_group P lo hi g \<longleftrightarrow> lo \<le> length g \<and> length g \<le> hi \<and> list_all P g"

text \<open>
  IPv4 in the words of the claim: exactly four groups between dots, each a run of decimal
  digits with a value from 0 to 255.
\<close>

definition claimed_ipv4 :: "string \<Rightarrow> bool" where
  "claimed_ipv4 s \<longleftrightarrow>
     (let gs = split_char CHR ''.'' s in
      length gs = 4 \<and> list_all (\<lambda>g. g \<noteq> [] \<and> list_all isDigit g \<and> decimal_value g \<le> 255) gs)"

text \<open>The same with groups of one to three digits.\<close>

definition ipv4_literal :: "string \<Rightarrow> bool" where
  "ipv4_literal s \<longleftrightarrow>
     (let gs = split_char CHR ''.'' s in
      length gs = 4 \<and> list_all (\<lambda>g. in_group isDigit 1 3 g \<and> decimal_value g \<le> 255) gs)"

text \<open>IPv6, form (a): exactly eight groups of one to four hexadecimal digits between colons.\<close>

definition full_ipv6 :: "string \<Rightarrow> bool" where
  "full_ipv6 s \<longleftrightarrow>
     (let gs = split_char CHR '':'' s in length gs = 8 \<and> list_all (in_group isHexDigit 1 4) gs)"

text \<open>
  IPv6, form (c) in the words of the claim: one \<open>::\<close> marker, and on its two sides
  groups of one to four hexadecimal digits between colons (none on an empty side), at
  most eight in all.
\<close>

definition explicit_groups :: "string \<Rightarrow> string list" where
  "explicit_groups x = (if x = [] then [] else split_char CHR '':'' x)"

definition claimed_compressed :: "string \<Rightarrow> bool" where
  "claimed_compressed s \<longleftrightarrow>
     (case split_dcolon s of
        [l, r] \<Rightarrow> list_all (in_group isHexDigit 1 4) (explicit_groups l @ explicit_groups r) \<and>
                  length (explicit_groups l @ explicit_groups r) \<le> 8
      | _ \<Rightarrow> False)"

definition claimed_ipv6 :: "string \<Rightarrow> bool" where
  "claimed_ipv6 s \<longleftrightarrow> full_ipv6 s \<or> s = ''::1'' \<or> s = ''::'' \<or> claimed_compressed s"

text \<open>
  Form (c) without a condition on the characters: splitting at \<open>::\<close> gives exactly two
  parts, and their non-empty segments between colons number at most eight.
\<close>

definition compressed_form :: "string \<Rightarrow> bool" where
  "compressed_form s \<longleftrightarrow>
     (case split_dcolon s of
        [l, r] \<Rightarrow> length (colon_segments l) + length (colon_segments r) \<le> 8
      | _ \<Rightarrow> False)"




section \<open>What the patterns match\<close>

lemma rx_class_iff: "r \<in> set (rx_class P s) \<longleftrightarrow> (\<exists>c. P c \<and> s = c # r)"
  by (cases s) (auto simp: rx_class_def)

lemma rx_seq_iff: "r \<in> set (rx_seq a b s) \<longleftrightarrow> (\<exists>t\<in>set (a s). r \<in> set (b t))"
  by (auto simp: rx_seq_def)

lemma rx_rep_class_iff:
  "r \<in> set (rx_rep lo hi (rx_class P) s) \<longleftrightarrow>
     (\<exists>u. s = u @ r \<and> lo \<le> length u \<and> length u \<le> hi \<and> list_all P u)"
proof (induction hi arbitrary: lo s)
  case 0
  then show ?case by (cases lo) auto
next
  case (Suc h)
  show ?case
  proof (cases lo)
    case 0
    have "r \<in> set (rx_rep 0 (Suc h) (rx_class P) s) \<longleftrightarrow>
          (\<exists>c cs. s = c # cs \<and> P c \<and> r \<in> set (rx_rep 0 h (rx_class P) cs)) \<or> r = s"
      by (cases s) (auto simp: rx_class_def)
    also have "\<dots> \<longleftrightarrow> (\<exists>c cs u. s = c # cs \<and> P c \<and> cs = u @ r \<and> length u \<le> h \<and> list_all P u) \<or> r = s"
      by (simp add: Suc.IH)
    also have "\<dots> \<longleftrightarrow> (\<exists>u. s = u @ r \<and> length u \<le> Suc h \<and> list_all P u)"
    proof
      assume "(\<exists>c cs u. s = c # cs \<and> P c \<and> cs = u @ r \<and> length u \<le> h \<and> list_all P u) \<or> r = s"
      then show "\<exists>u. s = u @ r \<and> length u \<le> Suc h \<and> list_all P u"
      proof
        assume "\<exists>c cs u. s = c # cs \<and> P c \<and> cs = u @ r \<and> length u \<le> h \<and> list_all P u"
        then obtain c u where "s = (c # u) @ r" "P c" "length u \<le> h" "list_all P u" by auto
        then have "s = (c # u) @ r \<and> length (c # u) \<le> Suc h \<and> list_all P (c # u)" by simp
        then show ?thesis by blast
      next
        assume "r = s"
        then have "s = [] @ r \<and> length ([]::string) \<le> Suc h \<and> list_all P []" by simp
        then show ?thesis by blast
      qed
    next
      assume "\<exists>u. s = u @ r \<and> length u \<le> Suc h \<and> list_all P u"
      then obtain u where u: "s = u @ r" "length u \<le> Suc h" "list_all P u" by blast
      show "(\<exists>c cs u. s = c # cs \<and> P c \<and> cs = u @ r \<and> length u \<le> h \<and> list_all P u) \<or> r = s"
        using u by (cases u) auto
    qed
    finally show ?thesis using 0 by simp
  next
    case (Suc l)
    have "r \<in> set (rx_rep (Suc l) (Suc h) (rx_class P) s) \<longleftrightarrow>
          (\<exists>c cs. s = c # cs \<and> P c \<and> r \<in> set (rx_rep l h (rx_class P) cs))"
      by (cases s) (auto simp: rx_class_def)
    also have "\<dots> \<longleftrightarrow> (\<exists>c cs u. s = c # cs \<and> P c \<and> cs = u @ r \<and> l \<le> length u \<and> length u \<le> h \<and> list_all P u)"
      by (simp add: Suc.IH)
    also have "\<dots> \<longleftrightarrow> (\<exists>u. s = u @ r \<and> Suc l \<le> length u \<and> length u \<le> Suc h \<and> list_all P u)"
    proof
      assume "\<exists>c cs u. s = c # cs \<and> P c \<and> cs = u @ r \<and> l \<le> length u \<and> length u \<le> h \<and> list_all P u"
      then obtain c u where "s = (c # u) @ r" "P c" "l \<le> length u" "length u \<le> h" "list_all P u" by auto
      then have "s = (c # u) @ r \<and> Suc l \<le> length (c # u) \<and> length (c # u) \<le> Suc h \<and> list_all P (c # u)" by simp
      then show "\<exists>u. s = u @ r \<and> Suc l \<le> length u \<and> length u \<le> Suc h \<and> list_all P u" by blast
    next
      assume "\<exists>u. s = u @ r \<and> Suc l \<le> length u \<and> length u \<le> Suc h \<and> list_all P u"
      then obtain u where u: "s = u @ r" "Suc l \<le> length u" "length u \<le> Suc h" "list_all P u" by blast
      show "\<exists>c cs u. s = c # cs \<and> P c \<and> cs = u @ r \<and> l \<le> length u \<and> length u \<le> h \<and> list_all P u"
        using u by (cases u) auto
    qed
    finally show ?thesis using Suc by simp
  qed
qed

lemma rx_group_iff:
  "r \<in> set (rx_seq (rx_rep lo hi (rx_class P)) (rx_class (\<lambda>c. c = d)) s) \<longleftrightarrow>
     (\<exists>u. s = u @ d # r \<and> in_group P lo hi u)"
  by (auto simp: rx_seq_iff rx_rep_class_iff rx_class_iff in_group_def)

lemma rx_rep_groups_iff:
  "r \<in> set (rx_rep n n (rx_seq (rx_rep lo hi (rx_class P)) (rx_class (\<lambda>c. c = d))) s) \<longleftrightarrow>
     (\<exists>gs. length gs = n \<and> list_all (in_group P lo hi) gs \<and>
           s = concat (map (\<lambda>g. g @ [d]) gs) @ r)"
proof (induction n arbitrary: s)
  case 0
  then show ?case by auto
next
  case (Suc n)
  let ?G = "rx_seq (rx_rep lo hi (rx_class P)) (rx_class (\<lambda>c. c = d))"
  have "r \<in> set (rx_rep (Suc n) (Suc n) ?G s) \<longleftrightarrow>
        (\<exists>t. t \<in> set (?G s) \<and> r \<in> set (rx_rep n n ?G t))"
    by auto
  also have "\<dots> \<longleftrightarrow> (\<exists>t u gs. s = u @ d # t \<and> in_group P lo hi u \<and> length gs = n \<and>
        list_all (in_group P lo hi) gs \<and> t = concat (map (\<lambda>g. g @ [d]) gs) @ r)"
    unfolding rx_group_iff Suc.IH by blast
  also have "\<dots> \<longleftrightarrow> (\<exists>gs. length gs = Suc n \<and> list_all (in_group P lo hi) gs \<and>
           s = concat (map (\<lambda>g. g @ [d]) gs) @ r)"
  proof
    assume "\<exists>t u gs. s = u @ d # t \<and> in_group P lo hi u \<and> length gs = n \<and>
        list_all (in_group P lo hi) gs \<and> t = concat (map (\<lambda>g. g @ [d]) gs) @ r"
    then obtain u gs where "s = u @ d # concat (map (\<lambda>g. g @ [d]) gs) @ r" "in_group P lo hi u"
      "length gs = n" "list_all (in_group P lo hi) gs" by blast
    then have "length (u # gs) = Suc n \<and> list_all (in_group P lo hi) (u # gs) \<and>
           s = concat (map (\<lambda>g. g @ [d]) (u # gs)) @ r" by simp
    then show "\<exists>gs. length gs = Suc n \<and> list_all (in_group P lo hi) gs \<and>
           s = concat (map (\<lambda>g. g @ [d]) gs) @ r" by blast
  next
    assume "\<exists>gs. length gs = Suc n \<and> list_all (in_group P lo hi) gs \<and>
           s = concat (map (\<lambda>g. g @ [d]) gs) @ r"
    then obtain gs where gs: "length gs = Suc n" "list_all (in_group P lo hi) gs"
           "s = concat (map (\<lambda>g. g @ [d]) gs) @ r" by blast
    then obtain u gs' where "gs = u # gs'" by (cases gs) auto
    with gs show "\<exists>t u gs. s = u @ d # t \<and> in_group P lo hi u \<and> length gs = n \<and>
        list_all (in_group P lo hi) gs \<and> t = concat (map (\<lambda>g. g @ [d]) gs) @ r"
      by auto
  qed
  finally show ?case .
qed


section \<open>The IP validator\<close>

lemma split_char_nonempty: "split_char d s \<noteq> []"
  by (induction s) (auto split: list.splits)

lemma split_char_no_sep: "d \<notin> set g \<Longrightarrow> split_char d g = [g]"
  by (induction g) auto

lemma split_char_append_sep:
  "d \<notin> set g \<Longrightarrow> split_char d (g @ d # rest) = g # split_char d rest"
  by (induction g) auto

lemma split_char_groups:
  "\<forall>g\<in>set gs. d \<notin> set g \<Longrightarrow> d \<notin> set g \<Longrightarrow>
   split_char d (concat (map (\<lambda>g. g @ [d]) gs) @ g) = gs @ [g]"
  by (induction gs) (auto simp: split_char_no_sep split_char_append_sep)

lemma concat_split_char:
  "concat (map (\<lambda>g. g @ [d]) (butlast (split_char d s))) @ last (split_char d s) = s"
  by (induction s) (auto split: list.splits simp: split_char_nonempty)


lemma rx_groups_test:
  assumes sep: "\<And>c. P c \<Longrightarrow> c \<noteq> d"
  shows "rx_test (rx_seq (rx_rep n n (rx_seq (rx_rep lo hi (rx_class P)) (rx_class (\<lambda>c. c = d))))
                         (rx_rep lo hi (rx_class P))) s \<longleftrightarrow>
         length (split_char d s) = Suc n \<and> list_all (in_group P lo hi) (split_char d s)"
proof
  assume "rx_test (rx_seq (rx_rep n n (rx_seq (rx_rep lo hi (rx_class P)) (rx_class (\<lambda>c. c = d))))
                         (rx_rep lo hi (rx_class P))) s"
  then obtain t where t: "t \<in> set (rx_rep n n (rx_seq (rx_rep lo hi (rx_class P)) (rx_class (\<lambda>c. c = d))) s)"
      and e: "[] \<in> set (rx_rep lo hi (rx_class P) t)"
    unfolding rx_test_def rx_seq_iff by blast
  from e have g: "in_group P lo hi t"
    by (auto simp: rx_rep_class_iff in_group_def)
  from t obtain gs where gs: "length gs = n" "list_all (in_group P lo hi) gs"
      "s = concat (map (\<lambda>g. g @ [d]) gs) @ t"
    unfolding rx_rep_groups_iff by blast
  have nosep: "d \<notin> set u" if "in_group P lo hi u" for u
    using that sep by (auto simp: in_group_def list_all_iff)
  have "split_char d s = gs @ [t]"
    unfolding gs(3) using gs(2) g nosep by (intro split_char_groups) (auto simp: list_all_iff)
  with gs g show "length (split_char d s) = Suc n \<and> list_all (in_group P lo hi) (split_char d s)"
    by simp
next
  assume a: "length (split_char d s) = Suc n \<and> list_all (in_group P lo hi) (split_char d s)"
  let ?hs = "split_char d s"
  have ne: "?hs \<noteq> []" by (rule split_char_nonempty)
  have s: "s = concat (map (\<lambda>g. g @ [d]) (butlast ?hs)) @ last ?hs"
    by (simp add: concat_split_char)
  have 1: "length (butlast ?hs) = n" using a by simp
  have 2: "list_all (in_group P lo hi) (butlast ?hs)"
    using a by (auto simp: list_all_iff dest: in_set_butlastD)
  have 3: "in_group P lo hi (last ?hs)"
    using a ne by (auto simp: list_all_iff)
  have "last ?hs \<in> set (rx_rep n n (rx_seq (rx_rep lo hi (rx_class P)) (rx_class (\<lambda>c. c = d))) s)"
    unfolding rx_rep_groups_iff using s 1 2 by blast
  moreover have "[] \<in> set (rx_rep lo hi (rx_class P) (last ?hs))"
    using 3 by (auto simp: rx_rep_class_iff in_group_def)
  ultimately show "rx_test (rx_seq (rx_rep n n (rx_seq (rx_rep lo hi (rx_class P)) (rx_class (\<lambda>c. c = d))))
                         (rx_rep lo hi (rx_class P))) s"
    unfolding rx_test_def rx_seq_iff by blast
qed

lemma isDigit_not_dot: "isDigit c \<Longrightarrow> c \<noteq> CHR ''.''"
  by (auto simp: isDigit_def inRange_def)

lemma isDigit_not_colon: "isDigit c \<Longrightarrow> c \<noteq> CHR '':''"
  by (auto simp: isDigit_def inRange_def)

lemma isHexDigit_not_colon: "isHexDigit c \<Longrightarrow> c \<noteq> CHR '':''"
  by (auto simp: isHexDigit_def inRange_def)

lemma ipv4Regex_test:
  "rx_test ipv4Regex s \<longleftrightarrow>
     length (split_char CHR ''.'' s) = 4 \<and> list_all (in_group isDigit 1 3) (split_char CHR ''.'' s)"
  unfolding ipv4Regex_def using rx_groups_test [of isDigit "CHR ''.''" 3 1 3 s] isDigit_not_dot
  by auto

lemma ipv6FullRegex_test: "rx_test ipv6FullRegex s \<longleftrightarrow> full_ipv6 s"
  unfolding ipv6FullRegex_def full_ipv6_def Let_def
  using rx_groups_test [of isHexDigit "CHR '':''" 7 1 4 s] isHexDigit_not_colon
  by auto

lemma set_split_char: "c \<in> set s \<Longrightarrow> c = d \<or> (\<exists>g\<in>set (split_char d s). c \<in> set g)"
  by (induction s) (auto split: list.splits)

lemma ipv4Regex_no_colon: "rx_test ipv4Regex s \<Longrightarrow> CHR '':'' \<notin> set s"
proof
  assume m: "rx_test ipv4Regex s" and c: "CHR '':'' \<in> set s"
  from set_split_char [OF c, of "CHR ''.''"] obtain g
    where g: "g \<in> set (split_char CHR ''.'' s)" "CHR '':'' \<in> set g" by auto
  from m g(1) have "list_all isDigit g"
    by (auto simp: ipv4Regex_test list_all_iff in_group_def)
  with g(2) isDigit_not_colon show False by (auto simp: list_all_iff)
qed

lemma full_ipv6_colon: "full_ipv6 s \<Longrightarrow> CHR '':'' \<in> set s"
  by (rule ccontr) (simp add: full_ipv6_def split_char_no_sep)

lemma str_includes_dcolon_colon: "str_includes s ''::'' \<Longrightarrow> CHR '':'' \<in> set s"
  by (induction s) auto

lemma split_dcolon_nonempty: "split_dcolon s \<noteq> []"
  by (induction s rule: split_dcolon.induct) (auto split: list.splits)

lemma split_dcolon_single: "length (split_dcolon s) = 1 \<longleftrightarrow> \<not> str_includes s ''::''"
proof (induction s rule: split_dcolon.induct)
  case (1 a b cs)
  show ?case
  proof (cases "a = CHR '':'' \<and> b = CHR '':''")
    case True
    then show ?thesis using split_dcolon_nonempty [of cs] by auto
  next
    case False
    obtain p ps where "split_dcolon (b # cs) = p # ps"
      using split_dcolon_nonempty [of "b # cs"] by (cases "split_dcolon (b # cs)") auto
    with False 1 show ?thesis by auto
  qed
qed auto

lemma Number_digit_group: "list_all isDigit g \<Longrightarrow> Number g = Some (decimal_value g)"
  by (simp add: Number_def)

lemma ipv4_branch_values:
  assumes "rx_test ipv4Regex s"
  shows "isValidIP s \<longleftrightarrow> list_all (\<lambda>g. decimal_value g \<le> 255) (split_char CHR ''.'' s)"
proof -
  have "\<forall>g\<in>set (split_char CHR ''.'' s). list_all isDigit g"
    using assms by (auto simp: ipv4Regex_test list_all_iff in_group_def)
  with assms show ?thesis
    by (auto simp: isValidIP_def list_all_iff Number_digit_group)
qed

text \<open>
  C4, as the code has it. For a text without a colon the validator answers true exactly
  when the text is four groups between dots, each of one to three decimal digits and with
  a value from 0 to 255. So \<open>127.0.0.1\<close> is accepted and \<open>256.0.0.1\<close> is not.
\<close>

theorem isValidIP_ipv4:
  assumes "CHR '':'' \<notin> set s"
  shows "isValidIP s \<longleftrightarrow> ipv4_literal s"
proof (cases "rx_test ipv4Regex s")
  case True
  then show ?thesis
    using ipv4_branch_values [OF True]
    by (auto simp: ipv4_literal_def Let_def ipv4Regex_test list_all_iff)
next
  case False
  have "\<not> ipv6Regex_test s"
    using assms full_ipv6_colon [of s] by (auto simp: ipv6Regex_test_def ipv6FullRegex_test)
  moreover have "\<not> str_includes s ''::''"
    using assms str_includes_dcolon_colon by blast
  ultimately have "\<not> isValidIP s" using False by (simp add: isValidIP_def)
  moreover have "\<not> ipv4_literal s"
    using False by (auto simp: ipv4_literal_def Let_def ipv4Regex_test list_all_iff)
  ultimately show ?thesis by simp
qed

theorem isValidIP_ipv4_witness:
  "CHR '':'' \<notin> set ''127.0.0.1'' \<and> isValidIP ''127.0.0.1''
   \<and> CHR '':'' \<notin> set ''256.0.0.1'' \<and> \<not> isValidIP ''256.0.0.1''"
proof -
  have a: "CHR '':'' \<notin> set ''127.0.0.1''" by simp
  have b: "CHR '':'' \<notin> set ''256.0.0.1''" by simp
  have c: "ipv4_literal ''127.0.0.1''" by code_simp
  have d: "\<not> ipv4_literal ''256.0.0.1''" by code_simp
  from a b c d isValidIP_ipv4 [OF a] isValidIP_ipv4 [OF b] show ?thesis by blast
qed

text \<open>
  The claim as stated gives no bound on the number of digits of a group. The text
  \<open>0001.2.3.4\<close> is four groups of decimal digits between dots with the values 1, 2, 3
  and 4, and the validator rejects it: the pattern allows three digits at most.
\<close>

theorem isValidIP_ipv4_digits_counterexample:
  "claimed_ipv4 ''0001.2.3.4'' \<and> \<not> isValidIP ''0001.2.3.4''"
  by code_simp

lemma length_two: "length xs = 2 \<longleftrightarrow> (\<exists>l r. xs = [l, r])"
  by (cases xs; cases "tl xs"; cases "tl (tl xs)") auto

lemma compressed_form_alt:
  "compressed_form s \<longleftrightarrow>
     str_includes s ''::'' \<and> length (split_dcolon s) = 2 \<and>
     length (colon_segments (split_dcolon s ! 0)) + length (colon_segments (split_dcolon s ! 1)) \<le> 8"
proof (cases "length (split_dcolon s) = 2")
  case True
  then obtain l r where lr: "split_dcolon s = [l, r]" by (auto simp: length_two)
  then have "str_includes s ''::''" using split_dcolon_single [of s] by auto
  with lr show ?thesis by (simp add: compressed_form_def)
next
  case False
  then have "\<not> compressed_form s"
    by (auto simp: compressed_form_def split: list.splits)
  with False show ?thesis by simp
qed

text \<open>
  C5, as the code has it. A text with a colon is accepted exactly when it is eight groups
  of one to four hexadecimal digits between colons, or \<open>::1\<close>, or \<open>::\<close>, or when
  splitting it at \<open>::\<close> gives exactly two parts whose non-empty segments between colons,
  of whatever characters, number at most eight.
\<close>

theorem isValidIP_colon:
  assumes "CHR '':'' \<in> set s"
  shows "isValidIP s \<longleftrightarrow> full_ipv6 s \<or> s = ''::1'' \<or> s = ''::'' \<or> compressed_form s"
proof -
  have "\<not> rx_test ipv4Regex s" using assms ipv4Regex_no_colon by blast
  then show ?thesis
    by (auto simp: isValidIP_def ipv6Regex_test_def ipv6FullRegex_test compressed_form_alt Let_def)
qed

theorem isValidIP_colon_witness:
  "CHR '':'' \<in> set ''2001:db8::1'' \<and> isValidIP ''2001:db8::1''
   \<and> CHR '':'' \<in> set ''1:2:3:4:5:6:7:8:9'' \<and> \<not> isValidIP ''1:2:3:4:5:6:7:8:9''"
proof -
  have a: "CHR '':'' \<in> set ''2001:db8::1''" by simp
  have b: "CHR '':'' \<in> set ''1:2:3:4:5:6:7:8:9''" by simp
  have c: "compressed_form ''2001:db8::1''" by code_simp
  have d: "\<not> (full_ipv6 ''1:2:3:4:5:6:7:8:9'' \<or> ''1:2:3:4:5:6:7:8:9'' = ''::1'' \<or>
              ''1:2:3:4:5:6:7:8:9'' = ''::'' \<or> compressed_form ''1:2:3:4:5:6:7:8:9'')"
    by code_simp
  from a b c d isValidIP_colon [OF a] isValidIP_colon [OF b] show ?thesis by blast
qed

text \<open>
  The claim as stated speaks of groups, which in the address syntax it describes are
  runs of one to four hexadecimal digits. The text \<open>xyz::abc\<close> has a colon and is of
  none of the three forms, and the validator accepts it.
\<close>

theorem isValidIP_colon_counterexample:
  "CHR '':'' \<in> set ''xyz::abc'' \<and> isValidIP ''xyz::abc'' \<and> \<not> claimed_ipv6 ''xyz::abc''"
  by code_simp

text \<open>
  C10. A text that contains \<open>::\<close>, that splits at \<open>::\<close> into exactly two parts, and
  whose parts have at most eight non-empty segments between colons, is accepted whatever
  the characters of the segments are. (The claim sets aside the texts that match the
  pattern of eight groups, \<open>::1\<close> and \<open>::\<close>; they are accepted as well.) So
  \<open>xyz::abc\<close> is accepted, though \<open>xyz\<close> has no hexadecimal digit.
\<close>

theorem compressed_any_segments:
  assumes "str_includes s ''::''" and "length (split_dcolon s) = 2"
    and "length (colon_segments (split_dcolon s ! 0)) + length (colon_segments (split_dcolon s ! 1)) \<le> 8"
  shows "isValidIP s"
proof -
  have "\<not> rx_test ipv4Regex s"
    using assms(1) ipv4Regex_no_colon str_includes_dcolon_colon by blast
  with assms show ?thesis by (simp add: isValidIP_def Let_def)
qed

theorem compressed_any_segments_witness:
  "str_includes ''xyz::abc'' ''::'' \<and> length (split_dcolon ''xyz::abc'') = 2
   \<and> length (colon_segments (split_dcolon ''xyz::abc'' ! 0)) +
       length (colon_segments (split_dcolon ''xyz::abc'' ! 1)) \<le> 8
   \<and> \<not> list_ex isHexDigit ''xyz''
   \<and> isValidIP ''xyz::abc''"
proof -
  have a: "str_includes ''xyz::abc'' ''::''" by code_simp
  have b: "length (split_dcolon ''xyz::abc'') = 2" by code_simp
  have c: "length (colon_segments (split_dcolon ''xyz::abc'' ! 0)) +
       length (colon_segments (split_dcolon ''xyz::abc'' ! 1)) \<le> 8" by code_simp
  have d: "\<not> list_ex isHexDigit ''xyz''" by code_simp
  from a b c d compressed_any_segments [OF a b c] show ?thesis by blast
qed

section \<open>The entry decoder\<close>











subsection \<open>The comment pattern\<close>











section \<open>Round trips through the text format\<close>

text \<open>
  C1. The claim is that re-parsing the text written for an entry gives the entry back
  (same ip, same set of hostnames, same flag, same comment), and that
  \<open>parse (stringify (parse text))\<close> agrees with \<open>parse text\<close> on well-formed lines.
  The decoder keeps every token after the first that does not itself begin with \<open>#\<close>, so
  the words of an inline comment that follow a separate \<open>#\<close> token come back as
  hostnames. For the entry of P2 the text written is \<open>10.0.0.5 a.test b.test # dev\<close>,
  and parsing it gives the hostnames \<open>a.test\<close>, \<open>b.test\<close> and \<open>dev\<close>. For the
  line \<open>1.2.3.4 a #x\<close> the first parse gives the hostname set \<open>{a}\<close> and the parse of
  the re-written text gives \<open>{a, x}\<close>.
\<close>

theorem parse_stringify_comment_words_become_hostnames:
  "parse (stringify sample_now [sample_entry]) =
     [\<lparr> id_str = ''entry-2'', ip = ''10.0.0.5'', hostnames = [''a.test'', ''b.test'', ''dev''],
        enabled = True, comment = Some ''dev'', group = None \<rparr>]
   \<and> set (hostnames (hd (parse (stringify sample_now [sample_entry])))) \<noteq> set (hostnames sample_entry)
   \<and> map hostnames (parse ''1.2.3.4 a #x'') = [[''a'']]
   \<and> map hostnames (parse (stringify sample_now (parse ''1.2.3.4 a #x''))) = [[''a'', ''x'']]"
  by code_simp

text \<open>
  C2. For the disabled entry of P3 the encoder writes the two comment lines
  \<open># 10.0.0.5 a.test b.test\<close> and \<open># dev\<close>, as claimed. Parsing the two lines gives
  one disabled entry, but its comment is undefined: a comment line is attached to the
  last entry only when the line before it is not a comment line, and the line of a
  disabled entry always is one. The same happens inside the full text that
  \<open>stringify\<close> writes.
\<close>

theorem disabled_entry_comment_not_recovered:
  "formatEntry sample_disabled_entry = [''# 10.0.0.5 a.test b.test'', ''# dev'']
   \<and> parse (join [CHR 0x0A] (formatEntry sample_disabled_entry)) =
       [\<lparr> id_str = ''entry-0'', ip = ''10.0.0.5'', hostnames = [''a.test'', ''b.test''],
          enabled = False, comment = None, group = None \<rparr>]
   \<and> map comment (parse (stringify sample_now [sample_disabled_entry])) = [None]"
  by code_simp

section \<open>Validation before writing\<close>

lemma foldl_hostname_errors:
  "foldl (\<lambda>errs hostname. if \<not> isValidHostname hostname
                            then errs @ [''Invalid hostname: '' @ hostname] else errs) acc hs
   = acc @ map (\<lambda>h. ''Invalid hostname: '' @ h) (filter (\<lambda>h. \<not> isValidHostname h) hs)"
  by (induction hs arbitrary: acc) auto

lemma errors_validateEntry: "errors (validateEntry e) = entry_reasons e"
  by (simp add: validateEntry_def entry_reasons_def Let_def foldl_hostname_errors)

lemma entry_reasons_empty: "entry_reasons e = [] \<longleftrightarrow> \<not> entry_invalid e"
  by (auto simp: entry_reasons_def entry_invalid_def list_ex_iff filter_empty_conv)

lemma valid_validateEntry: "valid (validateEntry e) \<longleftrightarrow> \<not> entry_invalid e"
proof -
  have "valid (validateEntry e) \<longleftrightarrow> errors (validateEntry e) = []"
    by (simp add: validateEntry_def Let_def)
  then show ?thesis by (simp add: errors_validateEntry entry_reasons_empty)
qed

lemma validate_loop_offending:
  "validate_loop es i acc = acc @ offending_lines i es"
proof (induction es arbitrary: i acc)
  case Nil
  then show ?case by (simp add: offending_lines_def)
next
  case (Cons e es)
  show ?case
    by (simp add: Cons.IH Let_def valid_validateEntry errors_validateEntry offending_lines_def)
qed

lemma offending_lines_empty:
  "offending_lines i es = [] \<longleftrightarrow> \<not> list_ex entry_invalid es"
  by (induction es arbitrary: i) (auto simp: offending_lines_def)

text \<open>
  C7. An empty list is rejected with a failure, and a list with an invalid entry is
  rejected with one failure whose message has a line for every offending entry and its
  reasons. In both cases the world is returned as it was: no dialog was shown, no backup
  stored and the hosts file not written.
\<close>

theorem writeHosts_rejects_before_writing:
  "(es = [] \<longrightarrow> writeHosts es env w = (Inl (Error ''Cannot save empty hosts file''), w))
   \<and> (es \<noteq> [] \<and> list_ex entry_invalid es \<longrightarrow>
        writeHosts es env w = (Inl (validation_failure es), w))"
proof (intro conjI impI)
  assume "es = []"
  then show "writeHosts es env w = (Inl (Error ''Cannot save empty hosts file''), w)"
    by (simp add: writeHosts_def validateEntriesForWrite_def)
next
  assume a: "es \<noteq> [] \<and> list_ex entry_invalid es"
  then have "offending_lines 0 es \<noteq> []"
    by (simp add: offending_lines_empty)
  with a show "writeHosts es env w = (Inl (validation_failure es), w)"
    by (simp add: writeHosts_def validateEntriesForWrite_def validate_loop_offending
        validation_failure_def Let_def)
qed

theorem writeHosts_rejects_before_writing_witness:
  "writeHosts [] sample_environment sample_world =
     (Inl (Error ''Cannot save empty hosts file''), sample_world)
   \<and> list_ex entry_invalid [sample_entry, sample_invalid_entry]
   \<and> writeHosts [sample_entry, sample_invalid_entry] sample_environment sample_world =
     (Inl (Error (''Validation failed:'' @ [CHR 0x0A] @
                  ''Entry 2: Invalid IP address: bad, At least one hostname is required'')),
      sample_world)"
proof -
  have inv: "list_ex entry_invalid [sample_entry, sample_invalid_entry]"
    by code_simp
  have msg: "validation_failure [sample_entry, sample_invalid_entry] =
      Error (''Validation failed:'' @ [CHR 0x0A] @
             ''Entry 2: Invalid IP address: bad, At least one hostname is required'')"
    by code_simp
  have ne: "[sample_entry, sample_invalid_entry] \<noteq> []"
    by simp
  have r1: "writeHosts [] sample_environment sample_world =
      (Inl (Error ''Cannot save empty hosts file''), sample_world)"
    using writeHosts_rejects_before_writing [of "[]" sample_environment sample_world]
    by blast
  have r2: "writeHosts [sample_entry, sample_invalid_entry] sample_environment sample_world =
      (Inl (validation_failure [sample_entry, sample_invalid_entry]), sample_world)"
    using writeHosts_rejects_before_writing
        [of "[sample_entry, sample_invalid_entry]" sample_environment sample_world] inv ne
    by blast
  show ?thesis
    using r1 r2 inv unfolding msg by (intro conjI)
qed

section \<open>The store\<close>

lemma map_unknown_id:
  "i \<notin> set (map id_str xs) \<Longrightarrow>
   map (\<lambda>entry. if id_str entry = i then f entry else entry) xs = xs"
  by (induction xs) auto

lemma entries_applyFilters: "entries (applyFilters lc s) = entries s"
  by (simp add: applyFilters_def Let_def)

text \<open>
  C9. When no entry of the working list has the id given, \<open>updateEntry\<close> and
  \<open>toggleEntry\<close> leave the working list as it was. Both are total functions of the
  store: no path of either raises.
\<close>

theorem updateEntry_toggleEntry_unknown_id:
  assumes "i \<notin> set (map id_str (entries s))"
  shows "entries (updateEntry lc i updates s) = entries s
         \<and> entries (toggleEntry lc i s) = entries s"
  using assms by (simp add: updateEntry_def toggleEntry_def entries_applyFilters map_unknown_id)

theorem updateEntry_toggleEntry_unknown_id_witness:
  "''2'' \<notin> set (map id_str (entries sample_store))
   \<and> entries (updateEntry (\<lambda>a b. 0) ''2'' sample_updates sample_store) = entries sample_store
   \<and> entries (toggleEntry (\<lambda>a b. 0) ''2'' sample_store) = entries sample_store"
proof -
  have h: "''2'' \<notin> set (map id_str (entries sample_store))"
    by (simp add: sample_store_def)
  show ?thesis
    using h updateEntry_toggleEntry_unknown_id [OF h, of "\<lambda>a b. 0" sample_updates] by simp
qed

subsection \<open>Sorting with a comparison function\<close>

lemma mset_js_insert: "mset (js_insert cmp x ys) = add_mset x (mset ys)"
  by (induction ys) auto

lemma mset_js_sort: "mset (js_sort cmp xs) = mset xs"
  unfolding js_sort_def by (induction xs) (auto simp: mset_js_insert)

lemma set_js_insert: "set (js_insert cmp x ys) = insert x (set ys)"
  by (induction ys) auto

lemma sorted_js_insert:
  assumes total: "\<And>a b. cmp a b \<le> 0 \<or> cmp b a \<le> 0"
    and trans: "\<And>a b c. cmp a b \<le> 0 \<Longrightarrow> cmp b c \<le> 0 \<Longrightarrow> cmp a c \<le> 0"
    and "sorted_wrt (\<lambda>a b. cmp a b \<le> 0) ys"
  shows "sorted_wrt (\<lambda>a b. cmp a b \<le> 0) (js_insert cmp x ys)"
  using assms(3)
proof (induction ys)
  case Nil
  then show ?case by simp
next
  case (Cons y ys)
  show ?case
  proof (cases "cmp x y \<le> 0")
    case True
    with Cons.prems show ?thesis by (auto intro: trans)
  next
    case False
    with total [of x y] have "cmp y x \<le> 0" by simp
    with False Cons show ?thesis by (auto simp: set_js_insert)
  qed
qed

lemma sorted_js_sort:
  assumes "\<And>a b. cmp a b \<le> 0 \<or> cmp b a \<le> 0"
    and "\<And>a b c. cmp a b \<le> 0 \<Longrightarrow> cmp b c \<le> 0 \<Longrightarrow> cmp a c \<le> 0"
  shows "sorted_wrt (\<lambda>a b. cmp a b \<le> 0) (js_sort cmp xs)"
proof (induction xs)
  case Nil
  then show ?case by (simp add: js_sort_def)
next
  case (Cons x xs)
  have "sorted_wrt (\<lambda>a b. cmp a b \<le> 0) (js_insert cmp x (js_sort cmp xs))"
    using assms(1) assms(2) Cons.IH by (rule sorted_js_insert)
  then show ?case by (simp add: js_sort_def)
qed

lemma sorted_wrt_mset_unique:
  assumes antisym: "\<And>a b. P a b \<Longrightarrow> P b a \<Longrightarrow> a = b"
  shows "sorted_wrt P xs \<Longrightarrow> sorted_wrt P ys \<Longrightarrow> mset xs = mset ys \<Longrightarrow> xs = ys"
proof (induction xs arbitrary: ys)
  case Nil
  then show ?case by simp
next
  case (Cons x xs)
  from Cons.prems(3) obtain y ys' where ys: "ys = y # ys'"
    by (cases ys) auto
  have xy: "x = y"
  proof (rule ccontr)
    assume ne: "x \<noteq> y"
    have "x \<in># mset ys" using Cons.prems(3) by (metis mset.simps(2) union_single_eq_member)
    with ne ys have "x \<in> set ys'" by auto
    with Cons.prems(2) ys have 1: "P y x" by auto
    have "y \<in># mset (x # xs)" using Cons.prems(3) ys by (metis mset.simps(2) union_single_eq_member)
    with ne have "y \<in> set xs" by auto
    with Cons.prems(1) have 2: "P x y" by auto
    from antisym [OF 2 1] ne show False by simp
  qed
  with Cons.prems ys have "xs = ys'"
    by (intro Cons.IH) auto
  with xy ys show ?case by simp
qed

lemma js_sort_eq_iff_mset:
  assumes total: "\<And>a b. cmp a b \<le> 0 \<or> cmp b a \<le> 0"
    and trans: "\<And>a b c. cmp a b \<le> 0 \<Longrightarrow> cmp b c \<le> 0 \<Longrightarrow> cmp a c \<le> 0"
    and antisym: "\<And>a b. cmp a b \<le> 0 \<Longrightarrow> cmp b a \<le> 0 \<Longrightarrow> a = b"
  shows "js_sort cmp xs = js_sort cmp ys \<longleftrightarrow> mset xs = mset ys"
proof
  assume "js_sort cmp xs = js_sort cmp ys"
  then have "mset (js_sort cmp xs) = mset (js_sort cmp ys)" by simp
  then show "mset xs = mset ys" by (simp add: mset_js_sort)
next
  assume "mset xs = mset ys"
  then have "mset (js_sort cmp xs) = mset (js_sort cmp ys)" by (simp add: mset_js_sort)
  moreover have "sorted_wrt (\<lambda>a b. cmp a b \<le> 0) (js_sort cmp zs)" for zs
    using total trans by (rule sorted_js_sort)
  ultimately show "js_sort cmp xs = js_sort cmp ys"
    using antisym sorted_wrt_mset_unique [of "\<lambda>a b. cmp a b \<le> 0" "js_sort cmp xs" "js_sort cmp ys"]
    by blast
qed

lemma find_None_iff_no_id:
  "find (\<lambda>e. id_str e = i) xs = None \<longleftrightarrow> i \<notin> set (map id_str xs)"
  by (induction xs) auto

subsection \<open>Unsaved entries\<close>

text \<open>
  When the collation orders texts totally (of two texts one is before or equal to the
  other, the relation is transitive, and only equal texts compare as equal), an entry is
  unsaved exactly when no saved entry has its id, or the saved entry with its id (the
  first, should there be several) differs in ip, enabled, comment or group, or the two
  hostname lists differ as multisets, that is, when compared without regard to order.
\<close>

lemma isEntryUnsaved_total_collation:
  assumes "\<And>a b. lc a b \<le> 0 \<or> lc b a \<le> 0"
    and "\<And>a b c. lc a b \<le> 0 \<Longrightarrow> lc b c \<le> 0 \<Longrightarrow> lc a c \<le> 0"
    and "\<And>a b. lc a b \<le> 0 \<Longrightarrow> lc b a \<le> 0 \<Longrightarrow> a = b"
  shows "isEntryUnsaved lc s entry \<longleftrightarrow>
           id_str entry \<notin> set (map id_str (originalEntries s)) \<or>
           (\<exists>original. find (\<lambda>e. id_str e = id_str entry) (originalEntries s) = Some original \<and>
              (ip entry \<noteq> ip original \<or> enabled entry \<noteq> enabled original \<or>
               comment entry \<noteq> comment original \<or> group entry \<noteq> group original \<or>
               mset (hostnames entry) \<noteq> mset (hostnames original)))"
proof (cases "find (\<lambda>e. id_str e = id_str entry) (originalEntries s)")
  case None
  moreover from None have "id_str entry \<notin> set (map id_str (originalEntries s))"
    using find_None_iff_no_id [of "id_str entry" "originalEntries s"] by blast
  ultimately show ?thesis
    by (simp add: isEntryUnsaved_def)
next
  case (Some original)
  then have "id_str entry \<in> set (map id_str (originalEntries s))"
    using find_None_iff_no_id [of "id_str entry" "originalEntries s"] by auto
  with Some show ?thesis
    using js_sort_eq_iff_mset [of lc "hostnames entry" "hostnames original", OF assms]
    by (auto simp: isEntryUnsaved_def Let_def)
qed

lemma codeunit_compare_le: "codeunit_compare a b \<le> 0 \<longleftrightarrow> a \<le> b"
  by (auto simp: codeunit_compare_def)

text \<open>The entries of P5 under such a collation.\<close>

lemma isEntryUnsaved_P5:
  "\<not> isEntryUnsaved codeunit_compare sample_store sample_reordered
   \<and> isEntryUnsaved codeunit_compare sample_store sample_extended
   \<and> isEntryUnsaved codeunit_compare sample_store sample_entry"
proof -
  have total: "\<And>a b. codeunit_compare a b \<le> 0 \<or> codeunit_compare b a \<le> 0"
    by (auto simp: codeunit_compare_le)
  have trans: "\<And>a b c. codeunit_compare a b \<le> 0 \<Longrightarrow> codeunit_compare b c \<le> 0
      \<Longrightarrow> codeunit_compare a c \<le> 0"
    by (auto simp: codeunit_compare_le)
  have antisym: "\<And>a b. codeunit_compare a b \<le> 0 \<Longrightarrow> codeunit_compare b a \<le> 0 \<Longrightarrow> a = b"
    by (auto simp: codeunit_compare_le)
  have 1: "\<not> isEntryUnsaved codeunit_compare sample_store sample_reordered"
    using isEntryUnsaved_total_collation [of codeunit_compare sample_store sample_reordered,
        OF total trans antisym]
    by (simp add: sample_store_def sample_reordered_def)
  have 2: "isEntryUnsaved codeunit_compare sample_store sample_extended"
    using isEntryUnsaved_total_collation [of codeunit_compare sample_store sample_extended,
        OF total trans antisym]
    by (simp add: sample_store_def sample_extended_def)
  have 3: "isEntryUnsaved codeunit_compare sample_store sample_entry"
    using isEntryUnsaved_total_collation [of codeunit_compare sample_store sample_entry,
        OF total trans antisym]
    by (simp add: sample_store_def sample_entry_def)
  from 1 2 3 show ?thesis by simp
qed

text \<open>
  C3. The claim is that the hostnames are compared without regard to order, so that an
  entry whose hostnames are a reordering of the saved ones is not unsaved.
  \<open>isEntryUnsaved\<close> sorts both lists with \<open>localeCompare\<close> as the comparison and
  compares the sorted lists. The sort is stable: two hostnames that compare as 0 stay
  in the order in which they were given. \<open>localeCompare\<close> ignores the soft hyphen, so
  \<open>a\<close> and \<open>a\<close> followed by U+00AD compare as 0. For every collation with that tie,
  the entry whose two hostnames are those of the saved entry, exchanged, is reported as
  unsaved, though the two lists hold the same hostnames.
\<close>

theorem isEntryUnsaved_reordering_of_tied_hostnames:
  assumes "lc ''a'' soft_hyphen_a = 0" and "lc soft_hyphen_a ''a'' = 0"
  shows "mset (hostnames tied_reordered) = mset (hostnames tied_saved)
         \<and> tied_reordered = tied_saved\<lparr> hostnames := rev (hostnames tied_saved) \<rparr>
         \<and> isEntryUnsaved lc tied_store tied_reordered"
proof -
  have ne: "''a'' \<noteq> soft_hyphen_a" by (simp add: soft_hyphen_a_def)
  have 1: "js_sort lc [''a'', soft_hyphen_a] = [''a'', soft_hyphen_a]"
    using assms(1) by (simp add: js_sort_def)
  have 2: "js_sort lc [soft_hyphen_a, ''a''] = [soft_hyphen_a, ''a'']"
    using assms(2) by (simp add: js_sort_def)
  have "isEntryUnsaved lc tied_store tied_reordered"
    using ne by (simp add: isEntryUnsaved_def tied_store_def tied_reordered_def tied_saved_def 1 2)
  moreover have "mset (hostnames tied_reordered) = mset (hostnames tied_saved)"
    by (simp add: tied_reordered_def tied_saved_def)
  moreover have "tied_reordered = tied_saved\<lparr> hostnames := rev (hostnames tied_saved) \<rparr>"
    by (simp add: tied_reordered_def tied_saved_def)
  ultimately show ?thesis by simp
qed

theorem isEntryUnsaved_reordering_of_tied_hostnames_witness:
  "soft_hyphen_blind_compare ''a'' soft_hyphen_a = 0
   \<and> soft_hyphen_blind_compare soft_hyphen_a ''a'' = 0
   \<and> mset (hostnames tied_reordered) = mset (hostnames tied_saved)
   \<and> isEntryUnsaved soft_hyphen_blind_compare tied_store tied_reordered"
proof -
  have a: "soft_hyphen_blind_compare ''a'' soft_hyphen_a = 0"
    by (simp add: soft_hyphen_blind_compare_def soft_hyphen_a_def codeunit_compare_def)
  have b: "soft_hyphen_blind_compare soft_hyphen_a ''a'' = 0"
    by (simp add: soft_hyphen_blind_compare_def soft_hyphen_a_def codeunit_compare_def)
  from a b isEntryUnsaved_reordering_of_tied_hostnames [OF a b] show ?thesis by simp
qed

text \<open>
  The copy of the test in \<open>checkUnsavedChanges\<close>, which sorts by code units, reports the
  same entry as saved.
\<close>

lemma checkUnsavedChanges_reordering_of_tied_hostnames:
  "\<not> checkUnsavedChanges_isEntryUnsaved (originalEntries tied_store) tied_reordered"
  by code_simp

section \<open>Identifiers assigned by the parser\<close>

lemma digit_val_digit_char: "d < 10 \<Longrightarrow> digit_val (digit_char d) = d"
  by (simp add: digit_val_def digit_char_def)

lemma decimal_value_snoc: "decimal_value (s @ [c]) = 10 * decimal_value s + digit_val c"
  by (simp add: decimal_value_def)

lemma decimal_value_show_nat: "decimal_value (show_nat n) = n"
proof (induction n rule: show_nat.induct)
  case (1 n)
  show ?case
  proof (cases "n < 10")
    case True
    then show ?thesis
      by (subst show_nat.simps) (simp add: decimal_value_def digit_val_digit_char)
  next
    case False
    with 1 have "decimal_value (show_nat (n div 10)) = n div 10" by simp
    with False show ?thesis
      by (subst show_nat.simps) (simp add: decimal_value_snoc digit_val_digit_char)
  qed
qed

lemma show_nat_inj: "show_nat a = show_nat b \<Longrightarrow> a = b"
  by (metis decimal_value_show_nat)

lemma parseEntryLine_id:
  "parseEntryLine l n = Some e \<Longrightarrow> id_str e = ''entry-'' @ show_nat n"
  by (auto simp: parseEntryLine_def Let_def split: if_splits)

lemma parseEntryLine_None_any:
  "parseEntryLine l n = None \<longleftrightarrow> parseEntryLine l 0 = None"
  by (auto simp: parseEntryLine_def Let_def split: if_splits)

lemma ids_handleCommentLine:
  "map id_str (handleCommentLine line es i allLines) = map id_str es"
proof (cases "es = []")
  case True
  then show ?thesis by (simp add: handleCommentLine_def)
next
  case False
  then have "map id_str (butlast es @ [(last es)\<lparr>comment := c\<rparr>]) = map id_str es" for c
    by (induction es) auto
  then show ?thesis by (simp add: handleCommentLine_def Let_def)
qed

lemma ids_parse_loop:
  "map id_str (parse_loop allLines rest i n es) =
     map id_str es @
     map (\<lambda>k. ''entry-'' @ show_nat k)
         (producing_positions n (filter (\<lambda>l. l \<noteq> []) (map trim rest)))"
proof (induction rest arbitrary: i n es)
  case Nil
  then show ?case by (simp add: producing_positions_def)
next
  case (Cons raw rest)
  show ?case
  proof (cases "trim raw = []")
    case True
    then show ?thesis by (simp add: Cons.IH)
  next
    case blank: False
    show ?thesis
    proof (cases "startsWith (trim raw) ''#''")
      case True
      show ?thesis
      proof (cases "parseEntryLine (trim (substring (trim raw) 1)) n")
        case None
        with True blank parseEntryLine_None_any [of "trim (substring (trim raw) 1)" n]
        show ?thesis
          by (simp add: Cons.IH Let_def ids_handleCommentLine producing_positions_def
              produces_entry_def)
      next
        case (Some e)
        with True blank parseEntryLine_None_any [of "trim (substring (trim raw) 1)" n]
        show ?thesis
          by (simp add: Cons.IH Let_def producing_positions_def produces_entry_def
              parseEntryLine_id [OF Some])
      qed
    next
      case False
      show ?thesis
      proof (cases "parseEntryLine (trim raw) n")
        case None
        with False blank parseEntryLine_None_any [of "trim raw" n]
        show ?thesis
          by (simp add: Cons.IH Let_def producing_positions_def produces_entry_def)
      next
        case (Some e)
        with False blank parseEntryLine_None_any [of "trim raw" n]
        show ?thesis
          by (simp add: Cons.IH Let_def producing_positions_def produces_entry_def
              parseEntryLine_id [OF Some])
      qed
    qed
  qed
qed

lemma sorted_producing_positions: "sorted_wrt (<) (producing_positions n ls)"
proof -
  have "sorted_wrt (<) (map fst (enumerate n ls))"
    by (simp add: map_fst_enumerate)
  then have "sorted_wrt (\<lambda>a b. fst a < fst b) (enumerate n ls)"
    unfolding sorted_wrt_map .
  then have "sorted_wrt (\<lambda>a b. fst a < fst b)
               (filter (\<lambda>(k, l). produces_entry l) (enumerate n ls))"
    by (rule sorted_wrt_filter)
  then show ?thesis
    by (simp add: producing_positions_def sorted_wrt_map)
qed

text \<open>
  C8, as the code has it. Every non-blank line, also a comment or a malformed line that
  yields no entry, uses up one value of the counter. The identifier of an entry is
  \<open>entry-k\<close>, where \<open>k\<close> is the number of non-blank lines before the line of the entry.
  The numbers increase strictly in output order, and the identifiers are pairwise
  distinct.
\<close>

theorem parse_ids_strictly_increasing:
  "map id_str (parse text) =
     map (\<lambda>k. ''entry-'' @ show_nat k) (producing_positions 0 (nonblank_lines text))
   \<and> sorted_wrt (<) (producing_positions 0 (nonblank_lines text))
   \<and> distinct (map id_str (parse text))"
proof -
  have ids: "map id_str (parse text) =
      map (\<lambda>k. ''entry-'' @ show_nat k) (producing_positions 0 (nonblank_lines text))"
    by (simp add: parse_def Let_def ids_parse_loop nonblank_lines_def)
  have srt: "sorted_wrt (<) (producing_positions 0 (nonblank_lines text))"
    by (rule sorted_producing_positions)
  then have "distinct (producing_positions 0 (nonblank_lines text))"
    by (simp add: strict_sorted_iff)
  moreover have "inj (\<lambda>k. ''entry-'' @ show_nat k)"
    by (auto simp: inj_def dest: show_nat_inj)
  ultimately have "distinct (map id_str (parse text))"
    unfolding ids by (simp add: distinct_map inj_on_def inj_def)
  with ids srt show ?thesis by simp
qed

text \<open>
  The claim as stated, that the entries are numbered 0, 1, 2 and so on without a gap,
  fails for a comment line followed by an entry line: the comment line yields no entry
  and uses up the index 0, and the entry gets the index 1.
\<close>

theorem parse_ids_gap_counterexample:
  "map id_str (parse sample_text) = [''entry-1'']
   \<and> map id_str (parse sample_text) \<noteq>
       map (\<lambda>k. ''entry-'' @ show_nat k) [0..<length (parse sample_text)]"
  by code_simp

end
